theory Spec2Isabelle
  imports Complex_Main "HOL-Library.Log_Nat"
begin

section \<open>JavaScript numbers\<close>

text \<open>
  The server computes with JavaScript Numbers, that is IEEE 754 binary64 values. A finite
  Number is represented by the real it denotes; the two infinities and NaN are separate
  values. The sign of zero is not represented: every zero is \<open>Fin 0\<close> and behaves as
  \<open>+0\<close>.
\<close>

datatype jsnum = Fin real | PInf | NInf | NaN

definition two_to :: "int \<Rightarrow> real" where
  "two_to k = (if 0 \<le> k then 2 ^ nat k else 1 / 2 ^ nat (- k))"

text \<open>The binary exponent \<open>\<lfloor>log\<^sub>2 \<bar>x\<bar>\<rfloor>\<close> of a nonzero real, computed on integers.\<close>

definition expo :: "real \<Rightarrow> int" where
  "expo x = (if 1 \<le> \<bar>x\<bar> then bitlen \<lfloor>\<bar>x\<bar>\<rfloor> - 1 else - bitlen (\<lceil>1 / \<bar>x\<bar>\<rceil> - 1))"

definition round_half_even :: "real \<Rightarrow> int" where
  "round_half_even t =
     (let f = \<lfloor>t\<rfloor>; r = t - of_int f
      in if r < 1 / 2 then f else if 1 / 2 < r then f + 1 else if even f then f else f + 1)"

text \<open>
  Rounding of an exact result to binary64, to nearest with ties to even: 53 significant
  bits, the exponent bounded below by \<open>-1022\<close> (subnormal numbers) and overflow to an
  infinity from \<open>2\<^sup>1\<^sup>0\<^sup>2\<^sup>4\<close> on.
\<close>

definition round64 :: "real \<Rightarrow> jsnum" where
  "round64 x =
     (if x = 0 then Fin 0
      else let e = max (expo x) (- 1022);
               u = two_to (e - 52);
               n = round_half_even (x / u)
           in if 1024 \<le> e \<or> (e = 1023 \<and> 2 ^ 53 \<le> \<bar>n\<bar>)
              then (if 0 < x then PInf else NInf)
              else Fin (of_int n * u))"

text \<open>A decimal literal of the source or of a JSON body denotes the nearest Number.\<close>

definition js_lit :: "real \<Rightarrow> jsnum" where
  "js_lit x = round64 x"

text \<open>
  The operators \<open>+\<close>, \<open>-\<close>, \<open>*\<close>, \<open>/\<close>, \<open><\<close> and \<open><=\<close> of the source on Numbers:
  the exact result rounded, with the IEEE rules for infinities and NaN.
\<close>

instantiation jsnum :: "{plus, minus, uminus, times, inverse, ord}"
begin

fun plus_jsnum :: "jsnum \<Rightarrow> jsnum \<Rightarrow> jsnum" where
  "plus_jsnum NaN _ = NaN"
| "plus_jsnum _ NaN = NaN"
| "plus_jsnum (Fin x) (Fin y) = round64 (x + y)"
| "plus_jsnum PInf NInf = NaN"
| "plus_jsnum NInf PInf = NaN"
| "plus_jsnum PInf _ = PInf"
| "plus_jsnum _ PInf = PInf"
| "plus_jsnum NInf _ = NInf"
| "plus_jsnum _ NInf = NInf"

fun uminus_jsnum :: "jsnum \<Rightarrow> jsnum" where
  "uminus_jsnum (Fin x) = Fin (- x)"
| "uminus_jsnum PInf = NInf"
| "uminus_jsnum NInf = PInf"
| "uminus_jsnum NaN = NaN"

definition minus_jsnum :: "jsnum \<Rightarrow> jsnum \<Rightarrow> jsnum" where
  "minus_jsnum x y = x + (- y)"

fun times_jsnum :: "jsnum \<Rightarrow> jsnum \<Rightarrow> jsnum" where
  "times_jsnum NaN _ = NaN"
| "times_jsnum _ NaN = NaN"
| "times_jsnum (Fin x) (Fin y) = round64 (x * y)"
| "times_jsnum (Fin x) PInf = (if x = 0 then NaN else if 0 < x then PInf else NInf)"
| "times_jsnum (Fin x) NInf = (if x = 0 then NaN else if 0 < x then NInf else PInf)"
| "times_jsnum PInf (Fin y) = (if y = 0 then NaN else if 0 < y then PInf else NInf)"
| "times_jsnum NInf (Fin y) = (if y = 0 then NaN else if 0 < y then NInf else PInf)"
| "times_jsnum PInf PInf = PInf"
| "times_jsnum PInf NInf = NInf"
| "times_jsnum NInf PInf = NInf"
| "times_jsnum NInf NInf = PInf"

fun divide_jsnum :: "jsnum \<Rightarrow> jsnum \<Rightarrow> jsnum" where
  "divide_jsnum NaN _ = NaN"
| "divide_jsnum _ NaN = NaN"
| "divide_jsnum (Fin x) (Fin y) =
     (if y = 0 then (if x = 0 then NaN else if 0 < x then PInf else NInf)
      else round64 (x / y))"
| "divide_jsnum (Fin x) _ = Fin 0"
| "divide_jsnum PInf (Fin y) = (if 0 \<le> y then PInf else NInf)"
| "divide_jsnum NInf (Fin y) = (if 0 \<le> y then NInf else PInf)"
| "divide_jsnum _ _ = NaN"

definition inverse_jsnum :: "jsnum \<Rightarrow> jsnum" where
  "inverse_jsnum x = divide (Fin 1) x"

fun less_jsnum :: "jsnum \<Rightarrow> jsnum \<Rightarrow> bool" where
  "less_jsnum (Fin x) (Fin y) = (x < y)"
| "less_jsnum (Fin x) PInf = True"
| "less_jsnum NInf (Fin y) = True"
| "less_jsnum NInf PInf = True"
| "less_jsnum _ _ = False"

fun less_eq_jsnum :: "jsnum \<Rightarrow> jsnum \<Rightarrow> bool" where
  "less_eq_jsnum (Fin x) (Fin y) = (x \<le> y)"
| "less_eq_jsnum (Fin x) PInf = True"
| "less_eq_jsnum NInf (Fin y) = True"
| "less_eq_jsnum NInf PInf = True"
| "less_eq_jsnum NInf NInf = True"
| "less_eq_jsnum PInf PInf = True"
| "less_eq_jsnum _ _ = False"

instance ..

end

text \<open>\<open>x ** 2\<close>: the engine's \<open>pow\<close> returns \<open>x * x\<close> for the exponent 2.\<close>

definition sq :: "jsnum \<Rightarrow> jsnum" where
  "sq x = x * x"

text \<open>The remainder \<open>x % y\<close> has the sign of the dividend and is exact.\<close>

definition trunc :: "real \<Rightarrow> int" where
  "trunc t = (if 0 \<le> t then \<lfloor>t\<rfloor> else \<lceil>t\<rceil>)"

fun js_rem :: "jsnum \<Rightarrow> jsnum \<Rightarrow> jsnum" where
  "js_rem NaN _ = NaN"
| "js_rem _ NaN = NaN"
| "js_rem (Fin x) (Fin y) = (if y = 0 then NaN else Fin (x - y * of_int (trunc (x / y))))"
| "js_rem (Fin x) _ = Fin x"
| "js_rem _ _ = NaN"

fun Math_abs :: "jsnum \<Rightarrow> jsnum" where
  "Math_abs (Fin x) = Fin \<bar>x\<bar>"
| "Math_abs PInf = PInf"
| "Math_abs NInf = PInf"
| "Math_abs NaN = NaN"

text \<open>
  \<open>Math.min\<close> and \<open>Math.max\<close> run over their arguments from \<open>+Infinity\<close> and
  \<open>-Infinity\<close>; any NaN argument makes the result NaN.
\<close>

definition min_step :: "jsnum \<Rightarrow> jsnum \<Rightarrow> jsnum" where
  "min_step lowest n = (if lowest = NaN \<or> n = NaN then NaN else if n < lowest then n else lowest)"

definition max_step :: "jsnum \<Rightarrow> jsnum \<Rightarrow> jsnum" where
  "max_step highest n = (if highest = NaN \<or> n = NaN then NaN else if highest < n then n else highest)"

definition Math_min :: "jsnum list \<Rightarrow> jsnum" where
  "Math_min xs = foldl min_step PInf xs"

definition Math_max :: "jsnum list \<Rightarrow> jsnum" where
  "Math_max xs = foldl max_step NInf xs"

section \<open>The Grashof classifier\<close>

text \<open>
  \<^verbatim>\<open>
  function grashofCondition(a, b, c, d) {
    const S = Math.min(a, b, c, d);
    const L = Math.max(a, b, c, d);
    const PQ = (a + b + c + d) - (S + L);
    const SL = S + L;
    if (SL < PQ) return 'Grashof';
    if (Math.abs(SL - PQ) < 1e-9) return 'Special Grashof';
    return 'non-Grashof';
  }
  \<close>
  The function is the same in \<open>src/server.js\<close> and in \<open>src/unnamed/part_001\<close>.
\<close>

text \<open>The local constants \<open>S\<close>, \<open>L\<close>, \<open>PQ\<close> and \<open>SL\<close> as functions of the arguments.\<close>

definition grashof_S :: "jsnum \<Rightarrow> jsnum \<Rightarrow> jsnum \<Rightarrow> jsnum \<Rightarrow> jsnum" where
  "grashof_S a b c d = Math_min [a, b, c, d]"

definition grashof_L :: "jsnum \<Rightarrow> jsnum \<Rightarrow> jsnum \<Rightarrow> jsnum \<Rightarrow> jsnum" where
  "grashof_L a b c d = Math_max [a, b, c, d]"

definition grashof_PQ :: "jsnum \<Rightarrow> jsnum \<Rightarrow> jsnum \<Rightarrow> jsnum \<Rightarrow> jsnum" where
  "grashof_PQ a b c d = (a + b + c + d) - (grashof_S a b c d + grashof_L a b c d)"

definition grashof_SL :: "jsnum \<Rightarrow> jsnum \<Rightarrow> jsnum \<Rightarrow> jsnum \<Rightarrow> jsnum" where
  "grashof_SL a b c d = grashof_S a b c d + grashof_L a b c d"

definition grashofCondition :: "jsnum \<Rightarrow> jsnum \<Rightarrow> jsnum \<Rightarrow> jsnum \<Rightarrow> string" where
  "grashofCondition a b c d =
     (let S = Math_min [a, b, c, d];
          L = Math_max [a, b, c, d];
          PQ = (a + b + c + d) - (S + L);
          SL = S + L
      in if SL < PQ then ''Grashof''
         else if Math_abs (SL - PQ) < js_lit (1 / 10 ^ 9) then ''Special Grashof''
         else ''non-Grashof'')"

section \<open>The angle solver\<close>

text \<open>
  \<open>Math.PI\<close> is the Number nearest to \<open>\<pi>\<close>, \<open>884279719003555 / 2\<^sup>4\<^sup>8\<close>.
\<close>

definition Math_PI :: jsnum where
  "Math_PI = Fin (884279719003555 / 2 ^ 48)"

text \<open>
  \<open>Math.cos\<close>, \<open>Math.sin\<close>, \<open>Math.sqrt\<close> and \<open>Math.atan2\<close>. ECMAScript fixes their
  values at zeros, infinities and NaN and leaves the others to the engine, within a
  rounding of the exact value; the model takes the exact value rounded.
\<close>

fun Math_cos :: "jsnum \<Rightarrow> jsnum" where
  "Math_cos (Fin x) = round64 (cos x)"
| "Math_cos _ = NaN"

fun Math_sin :: "jsnum \<Rightarrow> jsnum" where
  "Math_sin (Fin x) = round64 (sin x)"
| "Math_sin _ = NaN"

fun Math_sqrt :: "jsnum \<Rightarrow> jsnum" where
  "Math_sqrt (Fin x) = (if x < 0 then NaN else round64 (sqrt x))"
| "Math_sqrt PInf = PInf"
| "Math_sqrt _ = NaN"

fun Math_atan2 :: "jsnum \<Rightarrow> jsnum \<Rightarrow> jsnum" where
  "Math_atan2 NaN _ = NaN"
| "Math_atan2 _ NaN = NaN"
| "Math_atan2 (Fin y) (Fin x) =
     (if 0 < x then round64 (arctan (y / x))
      else if x < 0 then (if 0 \<le> y then round64 (arctan (y / x) + pi)
                          else round64 (arctan (y / x) - pi))
      else if 0 < y then round64 (pi / 2)
      else if y < 0 then round64 (- pi / 2)
      else Fin 0)"
| "Math_atan2 (Fin y) PInf = Fin 0"
| "Math_atan2 (Fin y) NInf = (if 0 \<le> y then round64 pi else round64 (- pi))"
| "Math_atan2 PInf (Fin x) = round64 (pi / 2)"
| "Math_atan2 NInf (Fin x) = round64 (- pi / 2)"
| "Math_atan2 PInf PInf = round64 (pi / 4)"
| "Math_atan2 PInf NInf = round64 (3 * pi / 4)"
| "Math_atan2 NInf PInf = round64 (- pi / 4)"
| "Math_atan2 NInf NInf = round64 (- 3 * pi / 4)"

text \<open>
  \<^verbatim>\<open>
  function degToRad(deg) { return (deg * Math.PI) / 180; }
  function radToDeg(rad) { return (rad * 180) / Math.PI; }
  function normalizeAngle(angleDeg) {
    let a = angleDeg % 360;
    return a < 0 ? a + 360 : a;
  }
  \<close>
\<close>

definition degToRad :: "jsnum \<Rightarrow> jsnum" where
  "degToRad deg = (deg * Math_PI) / Fin 180"

definition radToDeg :: "jsnum \<Rightarrow> jsnum" where
  "radToDeg rad = (rad * Fin 180) / Math_PI"

definition normalizeAngle :: "jsnum \<Rightarrow> jsnum" where
  "normalizeAngle angleDeg = (let a = js_rem angleDeg (Fin 360) in if a < Fin 0 then a + Fin 360 else a)"

text \<open>The result object of the solver; \<open>None\<close> is JavaScript's \<open>null\<close>.\<close>

record angles =
  theta41 :: "jsnum option"
  theta42 :: "jsnum option"
  theta31 :: "jsnum option"
  theta32 :: "jsnum option"

text \<open>
  \<open>computeFourBar\<close> of \<open>src/unnamed/part_001\<close>. Each pair of angles stays \<open>null\<close> when
  its discriminant is negative; otherwise the branch calls \<open>math.sqrt\<close> of mathjs, which
  on an argument that is not negative is \<open>Math.sqrt\<close>. The calls of \<open>console.log\<close> have
  no effect on the result.
\<close>

definition computeFourBar :: "jsnum \<Rightarrow> jsnum \<Rightarrow> jsnum \<Rightarrow> jsnum \<Rightarrow> jsnum \<Rightarrow> angles" where
  "computeFourBar a b c d theta2_deg =
     (let theta2 = degToRad theta2_deg;
          K1 = d / c;
          K2 = d / b;
          K3 = (sq a - sq b + sq c + sq d) / (Fin 2 * a * c);
          A = Math_cos theta2 - K1 - K2 * Math_cos theta2 + K3;
          B = Fin (- 2) * Math_sin theta2;
          C = K1 - (K2 - Fin 1) * Math_cos theta2 + K3;
          sqrtVal4 = B * B - Fin 4 * A * C;
          (theta41, theta42) =
            (if sqrtVal4 < Fin 0 then (None, None)
             else let root4 = Math_sqrt sqrtVal4;
                      partOpen4 = - B - root4;
                      theta4_1_rad = Fin 2 * Math_atan2 (Fin 2 * A) partOpen4;
                      partCross4 = - B + root4;
                      theta4_2_rad = Fin 2 * Math_atan2 (Fin 2 * A) partCross4
                  in (Some (normalizeAngle (radToDeg theta4_1_rad)),
                      Some (normalizeAngle (radToDeg theta4_2_rad))));
          K4 = d / b;
          K5 = (sq c - sq d + sq a + sq b) / (Fin 2 * a * b);
          D = Math_cos theta2 - K4 * Math_cos theta2 + K5;
          E = Fin (- 2) * Math_sin theta2;
          F = K4 - (Fin 1 - K4) * Math_cos theta2 + K5;
          sqrtVal3 = E * E - Fin 4 * D * F;
          (theta31, theta32) =
            (if sqrtVal3 < Fin 0 then (None, None)
             else let root3 = Math_sqrt sqrtVal3;
                      partOpen3 = - E - root3;
                      theta3_1_rad = Fin 2 * Math_atan2 (Fin 2 * D) partOpen3;
                      partCross3 = - E + root3;
                      theta3_2_rad = Fin 2 * Math_atan2 (Fin 2 * D) partCross3
                  in (Some (normalizeAngle (radToDeg theta3_1_rad)),
                      Some (normalizeAngle (radToDeg theta3_2_rad))))
      in \<lparr>theta41 = theta41, theta42 = theta42, theta31 = theta31, theta32 = theta32\<rparr>)"

text \<open>
  \<open>computeFourBar\<close> of \<open>src/server.js\<close> has no test of the discriminants: it passes both
  to \<open>math.sqrt\<close> and normalizes all four angles. For a negative argument \<open>math.sqrt\<close>
  returns a Complex object of mathjs, and \<open>-B - obj\<close> and \<open>-B + obj\<close> depend on how that
  library converts the object. The Numbers that \<open>Math.atan2\<close> then receives are the
  parameters \<open>sub_obj\<close> and \<open>add_obj\<close>, given \<open>-B\<close> and the negative argument.
\<close>

definition computeFourBar_server ::
  "(jsnum \<Rightarrow> jsnum \<Rightarrow> jsnum) \<Rightarrow> (jsnum \<Rightarrow> jsnum \<Rightarrow> jsnum) \<Rightarrow>
   jsnum \<Rightarrow> jsnum \<Rightarrow> jsnum \<Rightarrow> jsnum \<Rightarrow> jsnum \<Rightarrow> angles" where
  "computeFourBar_server sub_obj add_obj a b c d theta2_deg =
     (let theta2 = degToRad theta2_deg;
          K1 = d / c;
          K2 = d / b;
          K3 = (sq a - sq b + sq c + sq d) / (Fin 2 * a * c);
          A = Math_cos theta2 - K1 - K2 * Math_cos theta2 + K3;
          B = Fin (- 2) * Math_sin theta2;
          C = K1 - (K2 - Fin 1) * Math_cos theta2 + K3;
          partOpen = (if B * B - Fin 4 * A * C < Fin 0 then sub_obj (- B) (B * B - Fin 4 * A * C)
                      else - B - Math_sqrt (B * B - Fin 4 * A * C));
          theta4_1_rad = Fin 2 * Math_atan2 (Fin 2 * A) partOpen;
          partCross = (if B * B - Fin 4 * A * C < Fin 0 then add_obj (- B) (B * B - Fin 4 * A * C)
                       else - B + Math_sqrt (B * B - Fin 4 * A * C));
          theta4_2_rad = Fin 2 * Math_atan2 (Fin 2 * A) partCross;
          theta41 = radToDeg theta4_1_rad;
          theta42 = radToDeg theta4_2_rad;
          K4 = d / b;
          K5 = (sq c - sq d + sq a + sq b) / (Fin 2 * a * b);
          D = Math_cos theta2 - K4 * Math_cos theta2 + K5;
          E = Fin (- 2) * Math_sin theta2;
          F = K4 - (Fin 1 - K4) * Math_cos theta2 + K5;
          partOpen3 = (if E * E - Fin 4 * D * F < Fin 0 then sub_obj (- E) (E * E - Fin 4 * D * F)
                       else - E - Math_sqrt (E * E - Fin 4 * D * F));
          theta3_1_rad = Fin 2 * Math_atan2 (Fin 2 * D) partOpen3;
          theta31 = radToDeg theta3_1_rad;
          partCross3 = (if E * E - Fin 4 * D * F < Fin 0 then add_obj (- E) (E * E - Fin 4 * D * F)
                        else - E + Math_sqrt (E * E - Fin 4 * D * F));
          theta3_2_rad = Fin 2 * Math_atan2 (Fin 2 * D) partCross3;
          theta32 = radToDeg theta3_2_rad
      in \<lparr>theta41 = Some (normalizeAngle theta41), theta42 = Some (normalizeAngle theta42),
          theta31 = Some (normalizeAngle theta31), theta32 = Some (normalizeAngle theta32)\<rparr>)"

section \<open>The request handler\<close>

text \<open>
  \<^verbatim>\<open>
  app.post('/compute', (req, res) => {
    try {
      const { a, b, c, d, theta2 } = req.body;
      if (a == null || b == null || c == null || d == null || theta2 == null) {
        return res.status(400).json({
          error: 'Missing one of the required fields: a, b, c, d, theta2'
        });
      }
      const angles = computeFourBar(a, b, c, d, theta2);
      const grashof = grashofCondition(a, b, c, d);
      res.json({ grashof, theta41: angles.theta41, ... });
    } catch (err) {
      return res.status(500).json({ error: err.message });
    }
  });
  \<close>
  The body is a map from field names to JSON values; a field that is absent reads as
  \<open>undefined\<close>. The model covers the bodies whose five fields are absent, \<open>null\<close> or
  numbers. On Numbers neither \<open>computeFourBar\<close> nor \<open>grashofCondition\<close> throws, so the
  \<open>catch\<close> branch is not reached. \<open>Status200\<close> carries the values handed to
  \<open>res.json\<close>; the writing of the JSON text, which prints NaN as \<open>null\<close>, is not modelled.
\<close>

datatype json = JNull | JNum jsnum

type_synonym body = "string \<Rightarrow> json option"

datatype response =
    Status400 string
  | Status500 string
  | Status200 string angles

text \<open>\<open>v == null\<close> holds of \<open>undefined\<close> and of \<open>null\<close> only.\<close>

definition eq_null :: "json option \<Rightarrow> bool" where
  "eq_null v = (v = None \<or> v = Some JNull)"

text \<open>The Number a field stands for in arithmetic; \<open>undefined\<close> is NaN and \<open>null\<close> is 0.\<close>

fun to_number :: "json option \<Rightarrow> jsnum" where
  "to_number None = NaN"
| "to_number (Some JNull) = Fin 0"
| "to_number (Some (JNum x)) = x"

text \<open>
  The handler is the same in both files but for the solver it calls, which is therefore an
  argument here.
\<close>

definition post_compute ::
  "(jsnum \<Rightarrow> jsnum \<Rightarrow> jsnum \<Rightarrow> jsnum \<Rightarrow> jsnum \<Rightarrow> angles) \<Rightarrow> body \<Rightarrow> response" where
  "post_compute solver req_body =
     (let a = req_body ''a''; b = req_body ''b''; c = req_body ''c''; d = req_body ''d'';
          theta2 = req_body ''theta2''
      in if eq_null a \<or> eq_null b \<or> eq_null c \<or> eq_null d \<or> eq_null theta2
         then Status400 ''Missing one of the required fields: a, b, c, d, theta2''
         else let angles = solver (to_number a) (to_number b) (to_number c) (to_number d)
                             (to_number theta2);
                  grashof = grashofCondition (to_number a) (to_number b) (to_number c) (to_number d)
              in Status200 grashof angles)"

text \<open>A body whose five fields are the given Numbers.\<close>

definition number_body :: "jsnum \<Rightarrow> jsnum \<Rightarrow> jsnum \<Rightarrow> jsnum \<Rightarrow> jsnum \<Rightarrow> body" where
  "number_body a b c d theta2 =
     [''a'' \<mapsto> JNum a, ''b'' \<mapsto> JNum b, ''c'' \<mapsto> JNum c, ''d'' \<mapsto> JNum d,
      ''theta2'' \<mapsto> JNum theta2]"

section \<open>The closed form of the specification\<close>

text \<open>
  The specification's formulas for the output-link angle, in its own words and in the
  arithmetic of the program: \<open>theta2 = theta2_deg * \<pi> / 180\<close>, \<open>K1 = d/c\<close>, \<open>K2 = d/b\<close>,
  \<open>K3 = (a\<^sup>2 - b\<^sup>2 + c\<^sup>2 + d\<^sup>2) / (2ac)\<close>, \<open>A = cos(theta2) - K1 - K2 cos(theta2) + K3\<close>,
  \<open>B = -2 sin(theta2)\<close>, \<open>C = K1 - (K2 - 1) cos(theta2) + K3\<close>, the discriminant
  \<open>B\<^sup>2 - 4AC\<close>, and the two solutions \<open>2 atan2(2A, -B \<mp> root)\<close> converted to degrees.
\<close>

definition spec_theta2 :: "jsnum \<Rightarrow> jsnum" where
  "spec_theta2 theta2_deg = theta2_deg * Math_PI / Fin 180"

definition spec_K1 :: "jsnum \<Rightarrow> jsnum \<Rightarrow> jsnum" where
  "spec_K1 c d = d / c"

definition spec_K2 :: "jsnum \<Rightarrow> jsnum \<Rightarrow> jsnum" where
  "spec_K2 b d = d / b"

definition spec_K3 :: "jsnum \<Rightarrow> jsnum \<Rightarrow> jsnum \<Rightarrow> jsnum \<Rightarrow> jsnum" where
  "spec_K3 a b c d = (sq a - sq b + sq c + sq d) / (Fin 2 * a * c)"

definition spec_A :: "jsnum \<Rightarrow> jsnum \<Rightarrow> jsnum \<Rightarrow> jsnum \<Rightarrow> jsnum \<Rightarrow> jsnum" where
  "spec_A a b c d theta2_deg =
     Math_cos (spec_theta2 theta2_deg) - spec_K1 c d
       - spec_K2 b d * Math_cos (spec_theta2 theta2_deg) + spec_K3 a b c d"

definition spec_B :: "jsnum \<Rightarrow> jsnum" where
  "spec_B theta2_deg = Fin (- 2) * Math_sin (spec_theta2 theta2_deg)"

definition spec_C :: "jsnum \<Rightarrow> jsnum \<Rightarrow> jsnum \<Rightarrow> jsnum \<Rightarrow> jsnum \<Rightarrow> jsnum" where
  "spec_C a b c d theta2_deg =
     spec_K1 c d - (spec_K2 b d - Fin 1) * Math_cos (spec_theta2 theta2_deg) + spec_K3 a b c d"

definition spec_disc4 :: "jsnum \<Rightarrow> jsnum \<Rightarrow> jsnum \<Rightarrow> jsnum \<Rightarrow> jsnum \<Rightarrow> jsnum" where
  "spec_disc4 a b c d theta2_deg =
     spec_B theta2_deg * spec_B theta2_deg
       - Fin 4 * spec_A a b c d theta2_deg * spec_C a b c d theta2_deg"

definition spec_theta4_open :: "jsnum \<Rightarrow> jsnum \<Rightarrow> jsnum \<Rightarrow> jsnum \<Rightarrow> jsnum \<Rightarrow> jsnum" where
  "spec_theta4_open a b c d theta2_deg =
     Fin 2 * Math_atan2 (Fin 2 * spec_A a b c d theta2_deg)
               (- spec_B theta2_deg - Math_sqrt (spec_disc4 a b c d theta2_deg))"

definition spec_theta4_crossed :: "jsnum \<Rightarrow> jsnum \<Rightarrow> jsnum \<Rightarrow> jsnum \<Rightarrow> jsnum \<Rightarrow> jsnum" where
  "spec_theta4_crossed a b c d theta2_deg =
     Fin 2 * Math_atan2 (Fin 2 * spec_A a b c d theta2_deg)
               (- spec_B theta2_deg + Math_sqrt (spec_disc4 a b c d theta2_deg))"

definition spec_degrees :: "jsnum \<Rightarrow> jsnum" where
  "spec_degrees rad = rad * Fin 180 / Math_PI"

text \<open>The Number of the literal \<open>1e200\<close>.\<close>

definition huge :: jsnum where
  "huge = js_lit (10 ^ 200)"

section \<open>Facts about the arithmetic\<close>

lemma two_to_powi: "two_to k = 2 powi k"
  by (simp add: two_to_def power_int_def power_one_over field_simps)

lemma two_to_pos [simp]: "0 < two_to k"
  by (simp add: two_to_def)

lemma two_to_not_le0 [simp]: "\<not> two_to k \<le> 0"
  by (simp add: not_le)

lemma two_to_neq0 [simp]: "two_to k \<noteq> 0"
  by (rule less_imp_neq [THEN not_sym]) (rule two_to_pos)

lemma abs_two_to [simp]: "\<bar>two_to k\<bar> = two_to k"
  by (rule abs_of_pos) (rule two_to_pos)

lemma two_to_add: "two_to (j + k) = two_to j * two_to k"
  by (simp add: two_to_powi power_int_add)

lemma two_to_less_iff [simp]: "two_to j < two_to k \<longleftrightarrow> j < k"
proof
  assume "two_to j < two_to k"
  show "j < k"
  proof (rule ccontr)
    assume "\<not> j < k"
    then have "k \<le> j" by simp
    then have "two_to k \<le> two_to j"
      unfolding two_to_powi by (rule power_int_increasing) simp
    with \<open>two_to j < two_to k\<close> show False by simp
  qed
next
  assume "j < k"
  then show "two_to j < two_to k"
    unfolding two_to_powi by (rule power_int_strict_increasing) simp
qed

lemma two_to_le_iff [simp]: "two_to j \<le> two_to k \<longleftrightarrow> j \<le> k"
  using two_to_less_iff[of k j] by (simp only: not_less [symmetric])

lemma two_to_nat: "0 \<le> k \<Longrightarrow> two_to k = of_int (2 ^ nat k)"
  by (simp add: two_to_def)

lemma bitlen_unique:
  assumes "2 ^ k \<le> n" "n < 2 ^ Suc k"
  shows "bitlen n = int k + 1"
proof -
  have pos: "0 < n" using assms(1) by (smt (verit) zero_less_power)
  from bitlen_bounds[OF pos] have b: "2 ^ nat (bitlen n - 1) \<le> n" "n < 2 ^ nat (bitlen n)"
    by auto
  have ge1: "1 \<le> bitlen n" using pos bitlen_eq_zero_iff[of n] bitlen_nonneg[of n] by linarith
  from assms(1) b(2) have "(2::int) ^ k < 2 ^ nat (bitlen n)" by linarith
  then have "k < nat (bitlen n)" by (simp add: power_strict_increasing_iff)
  moreover from assms(2) b(1) have "(2::int) ^ nat (bitlen n - 1) < 2 ^ Suc k" by linarith
  then have "nat (bitlen n - 1) < Suc k" by (simp only: power_strict_increasing_iff one_less_numeral_iff semiring_norm)
  ultimately show ?thesis using ge1 by linarith
qed

lemma expo_eq:
  assumes lo: "two_to e \<le> \<bar>x\<bar>" and hi: "\<bar>x\<bar> < two_to (e + 1)"
  shows "expo x = e"
proof (cases "1 \<le> \<bar>x\<bar>")
  case True
  have "two_to 0 < two_to (e + 1)" using True hi by (simp add: two_to_def)
  then have e0: "0 \<le> e" by simp
  have "of_int (2 ^ nat e) \<le> \<bar>x\<bar>" using lo e0 by (simp add: two_to_nat)
  then have a: "2 ^ nat e \<le> \<lfloor>\<bar>x\<bar>\<rfloor>" by (simp add: le_floor_iff)
  have "\<bar>x\<bar> < of_int (2 ^ Suc (nat e))" using hi e0 by (simp add: two_to_nat nat_add_distrib)
  then have b: "\<lfloor>\<bar>x\<bar>\<rfloor> < 2 ^ Suc (nat e)" by (simp add: floor_less_iff)
  from bitlen_unique[OF a b] e0 True show ?thesis by (simp add: expo_def)
next
  case False
  then have x1: "\<bar>x\<bar> < 1" by simp
  have xp: "0 < \<bar>x\<bar>" using lo two_to_pos[of e] by linarith
  have "two_to e < two_to 0" using x1 lo by (simp add: two_to_def)
  then have e0: "e < 0" by simp
  define k where "k = nat (- e - 1)"
  have ek: "e = - int k - 1" using e0 by (simp add: k_def)
  have lo': "1 / 2 ^ Suc k \<le> \<bar>x\<bar>" using lo by (simp add: ek two_to_def nat_add_distrib)
  have hi': "\<bar>x\<bar> < 1 / 2 ^ k" using hi by (simp add: ek two_to_def split: if_splits)
  have u: "1 / \<bar>x\<bar> \<le> 2 ^ Suc k" using lo' xp by (simp add: field_simps)
  have l: "2 ^ k < 1 / \<bar>x\<bar>" using hi' xp by (simp add: field_simps)
  have a: "2 ^ k \<le> \<lceil>1 / \<bar>x\<bar>\<rceil> - 1"
  proof -
    have "of_int (2 ^ k) < 1 / \<bar>x\<bar>" using l by simp
    then have "2 ^ k < \<lceil>1 / \<bar>x\<bar>\<rceil>" by (simp only: less_ceiling_iff)
    then show ?thesis by linarith
  qed
  have b: "\<lceil>1 / \<bar>x\<bar>\<rceil> - 1 < 2 ^ Suc k"
  proof -
    have "1 / \<bar>x\<bar> \<le> of_int (2 ^ Suc k)" using u by simp
    then have "\<lceil>1 / \<bar>x\<bar>\<rceil> \<le> 2 ^ Suc k" by (simp only: ceiling_le_iff)
    then show ?thesis by linarith
  qed
  from bitlen_unique[OF a b] False show ?thesis by (simp add: expo_def ek)
qed


lemma expo_bounds:
  assumes "x \<noteq> 0"
  shows "two_to (expo x) \<le> \<bar>x\<bar>" and "\<bar>x\<bar> < two_to (expo x + 1)"
proof -
  define e where "e = \<lfloor>log 2 \<bar>x\<bar>\<rfloor>"
  have xp: "0 < \<bar>x\<bar>" using assms by simp
  have tp: "two_to k = 2 powr (of_int k)" for k
    by (simp add: two_to_def powr_real_of_int field_simps)
  have "of_int e \<le> log 2 \<bar>x\<bar>" by (simp add: e_def)
  then have lo: "two_to e \<le> \<bar>x\<bar>"
    unfolding tp using xp by (simp add: le_log_iff)
  have "log 2 \<bar>x\<bar> < of_int (e + 1)" by (simp add: e_def)
  then have hi: "\<bar>x\<bar> < two_to (e + 1)"
    unfolding tp using xp by (simp add: log_less_iff)
  from expo_eq[OF lo hi] lo hi show "two_to (expo x) \<le> \<bar>x\<bar>" and "\<bar>x\<bar> < two_to (expo x + 1)"
    by simp_all
qed

lemma round_half_even_of_int [simp]: "round_half_even (of_int z) = z"
  by (simp add: round_half_even_def)

lemma round64_0 [simp]: "round64 0 = Fin 0"
  by (simp add: round64_def)

lemma round64_eq:
  assumes "two_to e \<le> \<bar>x\<bar>" "\<bar>x\<bar> < two_to (e + 1)" "- 1022 \<le> e" "e \<le> 1022"
  shows "round64 x = Fin (of_int (round_half_even (x / two_to (e - 52))) * two_to (e - 52))"
proof -
  have "x \<noteq> 0" using assms(1) two_to_pos[of e] by auto
  moreover have "expo x = e" using assms(1,2) by (rule expo_eq)
  ultimately show ?thesis using assms(3,4) by (simp add: round64_def Let_def max_def)
qed

lemma round64_overflow:
  assumes "two_to 1024 \<le> \<bar>x\<bar>"
  shows "round64 x = (if 0 < x then PInf else NInf)"
proof -
  have nz: "x \<noteq> 0" using assms two_to_pos[of 1024] by auto
  from expo_bounds(2)[OF nz] assms have "two_to 1024 < two_to (expo x + 1)" by linarith
  then have "1024 \<le> expo x" by simp
  then show ?thesis using nz by (simp add: round64_def Let_def max_def)
qed

lemma round64_exact:
  assumes x: "x = of_int m * two_to j" and m: "\<bar>m\<bar> < 2 ^ 53" and j: "- 1074 \<le> j" "j \<le> 971"
  shows "round64 x = Fin x"
proof (cases "x = 0")
  case True
  then show ?thesis by simp
next
  case False
  define e where "e = max (expo x) (- 1022)"
  have "\<bar>x\<bar> = of_int \<bar>m\<bar> * two_to j" by (simp add: x abs_mult)
  also have "\<dots> < of_int (2 ^ 53) * two_to j"
    using m by (intro mult_strict_right_mono) (simp_all only: of_int_less_iff two_to_pos)
  also have "\<dots> = two_to (53 + j)" by (simp add: two_to_add) (simp add: two_to_def)
  finally have "two_to (expo x) < two_to (53 + j)" using expo_bounds(1)[OF False] by linarith
  then have ex: "expo x \<le> 52 + j" by simp
  then have e_le: "e \<le> 1023" and s: "0 \<le> j - (e - 52)" using j by (simp_all add: e_def)
  have "x / two_to (e - 52) = of_int m * (two_to j / two_to (e - 52))" by (simp add: x)
  also have "two_to j / two_to (e - 52) = two_to (j - (e - 52))"
    using two_to_add[of "j - (e - 52)" "e - 52"] by (simp add: field_simps)
  also have "\<dots> = of_int (2 ^ nat (j - (e - 52)))" using s by (rule two_to_nat)
  finally have q: "x / two_to (e - 52) = of_int (m * 2 ^ nat (j - (e - 52)))" by simp
  have r: "of_int (round_half_even (x / two_to (e - 52))) * two_to (e - 52) = x"
    unfolding q round_half_even_of_int using q by (simp add: field_simps)
  have top: "\<bar>round_half_even (x / two_to (e - 52))\<bar> < 2 ^ 53" if "e = 1023"
  proof -
    from that s j have "j - (e - 52) = 0" by simp
    then show ?thesis unfolding q round_half_even_of_int using m by simp
  qed
  show ?thesis using False e_le r top by (auto simp add: round64_def Let_def e_def [symmetric])
qed

lemma round64_numeral [simp]:
  "(numeral k :: int) < 2 ^ 53 \<Longrightarrow> round64 (numeral k) = Fin (numeral k)"
  "(numeral k :: int) < 2 ^ 53 \<Longrightarrow> round64 (- numeral k) = Fin (- numeral k)"
  using round64_exact[of "numeral k" "numeral k" 0] round64_exact[of "- numeral k" "- numeral k" 0]
  by (simp_all add: two_to_def)

lemma round64_1 [simp]: "round64 1 = Fin 1" "round64 (- 1) = Fin (- 1)"
  using round64_exact[of 1 1 0] round64_exact[of "- 1" "- 1" 0] by (simp_all add: two_to_def)

lemma round64_quarters [simp]:
  "(numeral k :: int) < 2 ^ 53 \<Longrightarrow> round64 (numeral k / 4) = Fin (numeral k / 4)"
  "(numeral k :: int) < 2 ^ 53 \<Longrightarrow> round64 (- (numeral k / 4)) = Fin (- (numeral k / 4))"
  "(numeral k :: int) < 2 ^ 53 \<Longrightarrow> round64 (numeral k / 2) = Fin (numeral k / 2)"
  "(numeral k :: int) < 2 ^ 53 \<Longrightarrow> round64 (- (numeral k / 2)) = Fin (- (numeral k / 2))"
  "round64 (1 / 4) = Fin (1 / 4)" "round64 (1 / 2) = Fin (1 / 2)"
  using round64_exact[of "numeral k / 4" "numeral k" "- 2"]
    round64_exact[of "- (numeral k / 4)" "- numeral k" "- 2"]
    round64_exact[of "numeral k / 2" "numeral k" "- 1"]
    round64_exact[of "- (numeral k / 2)" "- numeral k" "- 1"]
    round64_exact[of "1 / 4" 1 "- 2"] round64_exact[of "1 / 2" 1 "- 1"]
  by (simp_all add: two_to_def)

lemma plus_NaN [simp]: "x + NaN = NaN" "NaN + x = NaN"
  by (cases x; simp)+

lemma times_NaN [simp]: "x * NaN = NaN" "NaN * x = NaN"
  by (cases x; simp)+

lemma divide_NaN [simp]: "x / NaN = NaN" "NaN / x = NaN"
  by (cases x; simp)+

lemma minus_NaN [simp]: "x - NaN = NaN" "NaN - x = NaN"
  by (simp_all add: minus_jsnum_def)

lemma less_NaN [simp]: "\<not> x < NaN" "\<not> NaN < x"
  by (cases x; simp)+

lemma atan2_NaN [simp]: "Math_atan2 x NaN = NaN" "Math_atan2 NaN x = NaN"
  by (cases x; simp)+

lemma degToRad_0 [simp]: "degToRad (Fin 0) = Fin 0"
  by (simp add: degToRad_def Math_PI_def)

lemma normalizeAngle_NaN [simp]: "normalizeAngle NaN = NaN"
  by (simp add: normalizeAngle_def)

lemma radToDeg_NaN [simp]: "radToDeg NaN = NaN"
  by (simp add: radToDeg_def)

lemma round_half_even_le: "t \<le> of_int k \<Longrightarrow> round_half_even t \<le> k"
proof -
  assume t: "t \<le> of_int k"
  then have f: "\<lfloor>t\<rfloor> \<le> k" by (simp add: floor_le_iff)
  show ?thesis
  proof (cases "\<lfloor>t\<rfloor> = k")
    case True
    then have "of_int k \<le> t" by (metis of_int_floor_le)
    with t have "t = of_int k" by simp
    then show ?thesis by simp
  next
    case False
    with f have "\<lfloor>t\<rfloor> + 1 \<le> k" by simp
    then show ?thesis by (simp add: round_half_even_def Let_def)
  qed
qed

lemma round_half_even_ge: "of_int k \<le> t \<Longrightarrow> k \<le> round_half_even t"
proof -
  assume "of_int k \<le> t"
  then have "k \<le> \<lfloor>t\<rfloor>" by (simp add: le_floor_iff)
  then show ?thesis by (simp add: round_half_even_def Let_def)
qed

lemma round64_representable:
  assumes "round64 y = Fin r"
  shows "\<exists>m j. r = of_int m * two_to j \<and> \<bar>m\<bar> < 2 ^ 53 \<and> - 1074 \<le> j \<and> j \<le> 971"
proof (cases "y = 0")
  case True
  with assms have "r = of_int 0 * two_to 0" by simp
  then show ?thesis by (intro exI[of _ 0] conjI) simp_all
next
  case False
  define e where "e = max (expo y) (- 1022)"
  define q where "q = y / two_to (e - 52)"
  define n where "n = round_half_even q"
  from assms False have fin: "\<not> (1024 \<le> e \<or> e = 1023 \<and> 2 ^ 53 \<le> \<bar>n\<bar>)"
    and r: "r = of_int n * two_to (e - 52)"
    by (auto simp add: round64_def Let_def e_def [symmetric] n_def q_def split: if_splits)
  have e_lo: "- 1022 \<le> e" by (simp add: e_def)
  have "\<bar>y\<bar> < two_to (expo y + 1)" using expo_bounds(2)[OF False] .
  also have "\<dots> \<le> two_to (e + 1)" by (simp add: e_def)
  also have "\<dots> = two_to 53 * two_to (e - 52)"
    using two_to_add[of 53 "e - 52"] by (simp add: algebra_simps)
  also have "two_to 53 = of_int (2 ^ 53)" by (simp add: two_to_def)
  finally have "\<bar>y\<bar> < of_int (2 ^ 53) * two_to (e - 52)" .
  then have "\<bar>q\<bar> < of_int (2 ^ 53)"
    by (simp add: q_def field_simps)
  then have qb: "q \<le> of_int (2 ^ 53)" "of_int (- (2 ^ 53)) \<le> q"
    by (simp_all add: abs_less_iff)
  have "n \<le> 2 ^ 53" "- (2 ^ 53) \<le> n"
    unfolding n_def using round_half_even_le[OF qb(1)] round_half_even_ge[OF qb(2)] by simp_all
  then have nb: "\<bar>n\<bar> \<le> 2 ^ 53" by simp
  show ?thesis
  proof (cases "\<bar>n\<bar> < 2 ^ 53")
    case True
    with r e_lo fin show ?thesis by (intro exI[of _ n] exI[of _ "e - 52"]) auto
  next
    case False
    with nb have n53: "\<bar>n\<bar> = 2 ^ 53" by simp
    with fin have e_hi: "e \<le> 1022" by auto
    define m where "m = n div 2"
    have "n = 2 ^ 53 \<or> n = - (2 ^ 53)" using n53 by linarith
    then have nm: "n = 2 * m" by (auto simp add: m_def)
    have mb: "\<bar>m\<bar> < 2 ^ 53" using n53 nm by simp
    have "r = of_int m * (2 * two_to (e - 52))" by (simp add: r nm)
    also have "2 * two_to (e - 52) = two_to 1 * two_to (e - 52)" by (simp add: two_to_def)
    also have "\<dots> = two_to (e - 51)"
      using two_to_add[of 1 "e - 52"] by (simp add: algebra_simps)
    finally show ?thesis using mb e_lo e_hi by (intro exI[of _ m] exI[of _ "e - 51"]) auto
  qed
qed

lemma round64_idem:
  assumes "round64 y = Fin r"
  shows "round64 r = Fin r" and "round64 (- r) = Fin (- r)"
proof -
  from round64_representable[OF assms] obtain m j
    where r: "r = of_int m * two_to j" and m: "\<bar>m\<bar> < 2 ^ 53" and j: "- 1074 \<le> j" "j \<le> 971"
    by blast
  show "round64 r = Fin r" using r m j by (rule round64_exact)
  have "- r = of_int (- m) * two_to j" "\<bar>- m\<bar> < 2 ^ 53" using r m by simp_all
  then show "round64 (- r) = Fin (- r)" using j by (rule round64_exact)
qed



lemma round_half_even_minus: "round_half_even (- t) = - round_half_even t"
proof (cases "t = of_int \<lfloor>t\<rfloor>")
  case True
  then obtain z where "t = of_int z" ..
  then show ?thesis by (simp flip: of_int_minus)
next
  case False
  then have lt: "of_int \<lfloor>t\<rfloor> < t" by (metis of_int_floor_le order_le_less)
  have "\<lceil>t\<rceil> = \<lfloor>t\<rfloor> + 1" using False by (simp add: ceiling_altdef)
  then have f: "\<lfloor>- t\<rfloor> = - \<lfloor>t\<rfloor> - 1" by (simp add: floor_minus)
  have lt2: "t < of_int \<lfloor>t\<rfloor> + 1" by linarith
  show ?thesis
    unfolding round_half_even_def Let_def f using lt lt2
    by (auto simp add: field_simps)
qed

lemma expo_minus: "expo (- x) = expo x"
  by (simp add: expo_def)

lemma round64_minus: "round64 (- x) = - round64 x"
  by (auto simp add: round64_def Let_def expo_minus round_half_even_minus)


lemma round64_le:
  assumes xh: "x \<le> h" and h: "round64 h = Fin h"
  shows "round64 x \<le> Fin h"
proof (cases "x = 0")
  case True
  with xh show ?thesis by simp
next
  case False
  from round64_representable[OF h] obtain m j
    where hm: "h = of_int m * two_to j" and m: "\<bar>m\<bar> < 2 ^ 53" and j: "- 1074 \<le> j" "j \<le> 971"
    by blast
  define e where "e = max (expo x) (- 1022)"
  define u where "u = two_to (e - 52)"
  define n where "n = round_half_even (x / u)"
  have up: "0 < u" by (simp add: u_def)
  have r: "round64 x = (if 1024 \<le> e \<or> (e = 1023 \<and> 2 ^ 53 \<le> \<bar>n\<bar>)
      then (if 0 < x then PInf else NInf) else Fin (of_int n * u))"
    using False by (simp only: round64_def Let_def e_def u_def n_def if_False)
  have habs: "\<bar>h\<bar> < two_to (53 + j)"
  proof -
    have "\<bar>h\<bar> = of_int \<bar>m\<bar> * two_to j" by (simp add: hm abs_mult)
    also have "\<dots> < of_int (2 ^ 53) * two_to j"
      using m by (intro mult_strict_right_mono) (simp_all only: of_int_less_iff two_to_pos)
    also have "\<dots> = two_to (53 + j)" by (simp add: two_to_add) (simp add: two_to_def)
    finally show ?thesis .
  qed
  have xlo: "two_to (expo x) \<le> \<bar>x\<bar>" using expo_bounds(1)[OF False] .
  show ?thesis
  proof (cases "e - 52 \<le> j")
    case True
    define K where "K = m * 2 ^ nat (j - (e - 52))"
    have "two_to j / u = two_to (j - (e - 52))"
      using two_to_add[of "j - (e - 52)" "e - 52"] by (simp add: u_def field_simps)
    also have "\<dots> = of_int (2 ^ nat (j - (e - 52)))" using True by (intro two_to_nat) simp
    finally have "two_to j / u = of_int (2 ^ nat (j - (e - 52)))" .
    then have "of_int m * (two_to j / u) = of_int m * of_int (2 ^ nat (j - (e - 52)))" by simp
    then have hK: "h / u = of_int K" by (simp add: hm K_def)
    have "x / u \<le> h / u" using xh up by (simp add: divide_right_mono)
    then have nK: "n \<le> K" unfolding hK n_def by (rule round_half_even_le)
    have nu: "of_int n * u \<le> h"
    proof -
      have "(of_int n :: real) \<le> of_int K" using nK by (simp only: of_int_le_iff)
      then have "of_int n * u \<le> of_int K * u"
        using up by (intro mult_right_mono) (assumption, rule less_imp_le)
      also have "\<dots> = h" using hK up by (simp add: field_simps)
      finally show ?thesis .
    qed
    show ?thesis
    proof (cases "0 < x")
      case xpos: True
      then have "two_to (expo x) < two_to (53 + j)" using xlo xh habs by linarith
      then have ex: "expo x \<le> 52 + j" by simp
      then have e1023: "e \<le> 1023" using j by (simp add: e_def)
      have "\<not> (e = 1023 \<and> 2 ^ 53 \<le> \<bar>n\<bar>)"
      proof
        assume a: "e = 1023 \<and> 2 ^ 53 \<le> \<bar>n\<bar>"
        with True j have "j = 971" by simp
        with a have "K = m" by (simp add: K_def)
        with nK m have nlt: "n < 2 ^ 53" by simp
        have "of_int 0 \<le> x / u" using xpos up by simp
        then have "0 \<le> n" unfolding n_def by (rule round_half_even_ge)
        with nlt a show False by simp
      qed
      with e1023 r nu show ?thesis by simp
    next
      case False
      with r nu show ?thesis by (simp split: if_splits)
    qed
  next
    case False
    then have jlt: "j < e - 52" by simp
    with j have "- 1022 < e" by simp
    then have ee: "e = expo x" by (simp add: e_def max_def split: if_splits)
    have "two_to (53 + j) \<le> two_to e" using jlt by simp
    with habs xlo have hx: "\<bar>h\<bar> < \<bar>x\<bar>" and he: "\<bar>h\<bar> < two_to e" unfolding ee by linarith+
    with xh have xneg: "x < 0" by linarith
    have "x \<le> - two_to e" using xlo xneg unfolding ee by linarith
    also have "- two_to e = of_int (- (2 ^ 52)) * u"
      using two_to_add[of 52 "e - 52"] by (simp add: u_def) (simp add: two_to_def)
    finally have "x / u \<le> of_int (- (2 ^ 52))" using up by (simp add: field_simps)
    then have "n \<le> - (2 ^ 52)" unfolding n_def by (rule round_half_even_le)
    then have "(of_int n :: real) \<le> of_int (- (2 ^ 52))" by (simp only: of_int_le_iff)
    then have "of_int n * u \<le> of_int (- (2 ^ 52)) * u"
      using up by (intro mult_right_mono) (assumption, rule less_imp_le)
    also have "\<dots> = - two_to e"
      using two_to_add[of 52 "e - 52"] by (simp add: u_def) (simp add: two_to_def)
    also have "\<dots> \<le> h" using he by linarith
    finally have "of_int n * u \<le> h" .
    with r xneg show ?thesis by (simp split: if_splits)
  qed
qed

lemma round64_ge:
  assumes lx: "l \<le> x" and l: "round64 l = Fin l"
  shows "Fin l \<le> round64 x"
proof -
  have "round64 (- x) \<le> Fin (- l)"
    using lx round64_idem(2)[OF l] by (intro round64_le) simp_all
  then show ?thesis unfolding round64_minus by (cases "round64 x") simp_all
qed

lemma between_Fin:
  fixes y :: jsnum
  assumes "Fin l \<le> y" "y \<le> Fin h"
  obtains r where "y = Fin r" "l \<le> r" "r \<le> h"
  using assms by (cases y) simp_all

lemma round64_between:
  assumes "l \<le> x" "x \<le> h" "round64 l = Fin l" "round64 h = Fin h"
  obtains r where "round64 x = Fin r" "l \<le> r" "r \<le> h"
  using round64_ge[OF assms(1,3)] round64_le[OF assms(2,4)] by (rule between_Fin)


lemma round_half_even_near:
  assumes "of_int k - 1 / 2 \<le> t" "t \<le> of_int k" "even k"
  shows "round_half_even t = k"
proof (cases "t = of_int k")
  case True
  then show ?thesis by simp
next
  case False
  with assms have "of_int (k - 1) \<le> t" "t < of_int (k - 1) + 1" by simp_all
  then have f: "\<lfloor>t\<rfloor> = k - 1" by (simp only: floor_unique)
  show ?thesis unfolding round_half_even_def Let_def f using assms by auto
qed

lemma normalizeAngle_360:
  assumes "- (1 / 2 ^ 45) \<le> r" "r < 0"
  shows "normalizeAngle (Fin r) = Fin 360"
proof -
  have "- 1 < r / 360" "r / 360 \<le> 0" using assms by simp_all
  then have "\<lceil>r / 360\<rceil> = 0" by (simp add: ceiling_eq_iff)
  then have rem: "js_rem (Fin r) (Fin 360) = Fin r" using assms by (simp add: trunc_def)
  have lo: "two_to 8 \<le> \<bar>r + 360\<bar>" and hi: "\<bar>r + 360\<bar> < two_to (8 + 1)"
    using assms by (simp_all add: two_to_def)
  have "round_half_even ((r + 360) / two_to (8 - 52)) = 360 * 2 ^ 44"
    using assms by (intro round_half_even_near) (simp_all add: two_to_def field_simps)
  then have "round64 (r + 360) = Fin 360"
    unfolding round64_eq[OF lo hi, simplified] by (simp add: two_to_def)
  with rem assms show ?thesis by (simp add: normalizeAngle_def)
qed

lemma arctan_le_self:
  assumes "0 \<le> s"
  shows "arctan s \<le> s"
proof -
  have "(\<lambda>x. x - arctan x) 0 \<le> (\<lambda>x. x - arctan x) s"
  proof (rule DERIV_nonneg_imp_nondecreasing[OF assms])
    fix x :: real
    have "((\<lambda>x. x - arctan x) has_real_derivative 1 - inverse (1 + x\<^sup>2)) (at x)"
      by (auto intro!: derivative_eq_intros)
    moreover have "inverse (1 + x\<^sup>2) \<le> inverse 1"
      by (intro le_imp_inverse_le) simp_all
    then have "0 \<le> 1 - inverse (1 + x\<^sup>2)" by simp
    ultimately show "\<exists>y. ((\<lambda>x. x - arctan x) has_real_derivative y) (at x) \<and> 0 \<le> y" by blast
  qed
  then show ?thesis by simp
qed

lemma arctan_ge_half:
  assumes "0 \<le> s" "s \<le> 1"
  shows "s / 2 \<le> arctan s"
proof -
  have "1 + s\<^sup>2 \<le> 2\<^sup>2" using assms by (simp add: power2_eq_square) (smt (verit) mult_le_one)
  then have "sqrt (1 + s\<^sup>2) \<le> 2" by (intro real_le_lsqrt) simp_all
  moreover have "0 < sqrt (1 + s\<^sup>2)" by (simp add: add_pos_nonneg)
  ultimately have "s / 2 \<le> s / sqrt (1 + s\<^sup>2)"
    using assms(1) by (intro frac_le) simp_all
  also have "\<dots> = sin (arctan s)" by (simp add: sin_arctan)
  also have "\<dots> \<le> arctan s" using assms by (intro sin_x_le_x) simp
  finally show ?thesis .
qed

lemma arctan_neg_bounds:
  assumes "- 1 \<le> t" "t \<le> 0"
  shows "t \<le> arctan t" "arctan t \<le> t / 2"
  using arctan_le_self[of "- t"] arctan_ge_half[of "- t"] assms by (simp_all add: arctan_minus)



section \<open>Properties of the classifier\<close>



lemma js_lit_eps: "js_lit (1 / 1000000000) = Fin (4835703278458517 / 4835703278458516698824704)"
  unfolding js_lit_def by (subst round64_eq[where e = "- 30"]) (simp_all add: two_to_def round_half_even_def)

lemma lit_1_10: "js_lit (1 / 10) = Fin (3602879701896397 / 36028797018963968)"
  unfolding js_lit_def
  by (subst round64_eq[where e = "- 4"]) (simp_all add: two_to_def round_half_even_def)

lemma lit_1_5: "js_lit (1 / 5) = Fin (3602879701896397 / 18014398509481984)"
  unfolding js_lit_def
  by (subst round64_eq[where e = "- 3"]) (simp_all add: two_to_def round_half_even_def)

lemma lit_3_10: "js_lit (3 / 10) = Fin (5404319552844595 / 18014398509481984)"
  unfolding js_lit_def
  by (subst round64_eq[where e = "- 2"]) (simp_all add: two_to_def round_half_even_def)

lemma lit_2_5: "js_lit (2 / 5) = Fin (3602879701896397 / 9007199254740992)"
  unfolding js_lit_def
  by (subst round64_eq[where e = "- 2"]) (simp_all add: two_to_def round_half_even_def)

lemma sum_a1: "round64 (10808639105689191 / 36028797018963968) = Fin (1351079888211149 / 4503599627370496)"
  by (subst round64_eq[where e = "- 2"]) (simp_all add: two_to_def round_half_even_def)

lemma sum_a2: "round64 (10808639105689191 / 18014398509481984) = Fin (1351079888211149 / 2251799813685248)"
  by (subst round64_eq[where e = "- 1"]) (simp_all add: two_to_def round_half_even_def)

lemma sum_a3: "round64 (9007199254740993 / 9007199254740992) = Fin (1)"
  by (subst round64_eq[where e = "0"]) (simp_all add: two_to_def round_half_even_def)

lemma sum_b1: "round64 (10808639105689191 / 18014398509481984) = Fin (1351079888211149 / 2251799813685248)"
  by (subst round64_eq[where e = "- 1"]) (simp_all add: two_to_def round_half_even_def)

lemma sum_b2: "round64 (16212958658533787 / 18014398509481984) = Fin (4053239664633447 / 4503599627370496)"
  by (subst round64_eq[where e = "- 1"]) (simp_all add: two_to_def round_half_even_def)

lemma sum_b3: "round64 (36028797018963973 / 36028797018963968) = Fin (4503599627370497 / 4503599627370496)"
  by (subst round64_eq[where e = "0"]) (simp_all add: two_to_def round_half_even_def)

lemma sum_SL: "round64 (18014398509481985 / 36028797018963968) = Fin (1 / 2)"
  by (subst round64_eq[where e = "- 1"]) (simp_all add: two_to_def round_half_even_def)

lemma sum_PQ: "round64 (2251799813685249 / 4503599627370496) = Fin (2251799813685249 / 4503599627370496)"
  by (subst round64_eq[where e = "- 1"]) (simp_all add: two_to_def round_half_even_def)

lemma sum_diff: "round64 (- (1 / 4503599627370496)) = Fin (- (1 / 4503599627370496))"
  by (subst round64_eq[where e = "- 52"]) (simp_all add: two_to_def round_half_even_def)

lemmas tenths = js_lit_eps lit_1_10 lit_1_5 lit_3_10 lit_2_5 sum_a1 sum_a2 sum_a3 sum_b1 sum_b2 sum_b3
  sum_SL sum_PQ sum_diff



text \<open>
  Claim C9. The strict comparison comes first: whenever \<open>S + L < PQ\<close> the result is
  \<open>Grashof\<close>, whatever the distance of the two sums, so \<open>Special Grashof\<close> is returned only
  when \<open>PQ \<le> S + L\<close> and the distance is below the tolerance. The witness is a linkage
  whose sums differ by \<open>2\<^sup>-\<^sup>5\<^sup>2\<close> through rounding, inside the tolerance, and which is
  classified \<open>Grashof\<close>.
\<close>

theorem strict_test_precedes_tolerance:
  "(grashof_SL a b c d < grashof_PQ a b c d \<longrightarrow> grashofCondition a b c d = ''Grashof'') \<and>
   (grashofCondition a b c d = ''Special Grashof'' \<longrightarrow>
      grashof_PQ a b c d \<le> grashof_SL a b c d \<and>
      Math_abs (grashof_SL a b c d - grashof_PQ a b c d) < js_lit (1 / 1000000000))"
proof -
  have le: "x \<le> y" if "\<not> y < x" "Math_abs (y - x) < z" for x y z :: jsnum
    using that by (cases x; cases y; cases z; simp add: minus_jsnum_def)
  show ?thesis
    unfolding grashofCondition_def grashof_SL_def grashof_PQ_def grashof_S_def grashof_L_def
    by (auto simp add: Let_def le split: if_splits)
qed

theorem strict_test_precedes_tolerance_witness:
  "grashof_SL (js_lit (1 / 5)) (js_lit (2 / 5)) (js_lit (3 / 10)) (js_lit (1 / 10))
     < grashof_PQ (js_lit (1 / 5)) (js_lit (2 / 5)) (js_lit (3 / 10)) (js_lit (1 / 10)) \<and>
   Math_abs (grashof_SL (js_lit (1 / 5)) (js_lit (2 / 5)) (js_lit (3 / 10)) (js_lit (1 / 10))
     - grashof_PQ (js_lit (1 / 5)) (js_lit (2 / 5)) (js_lit (3 / 10)) (js_lit (1 / 10)))
     < js_lit (1 / 1000000000) \<and>
   grashofCondition (js_lit (1 / 5)) (js_lit (2 / 5)) (js_lit (3 / 10)) (js_lit (1 / 10)) = ''Grashof''"
proof -
  have 1: "grashof_SL (js_lit (1 / 5)) (js_lit (2 / 5)) (js_lit (3 / 10)) (js_lit (1 / 10))
     < grashof_PQ (js_lit (1 / 5)) (js_lit (2 / 5)) (js_lit (3 / 10)) (js_lit (1 / 10))"
    by (simp add: grashof_SL_def grashof_PQ_def grashof_S_def grashof_L_def Math_min_def
        Math_max_def min_step_def max_step_def minus_jsnum_def tenths)
  have 2: "Math_abs (grashof_SL (js_lit (1 / 5)) (js_lit (2 / 5)) (js_lit (3 / 10)) (js_lit (1 / 10))
     - grashof_PQ (js_lit (1 / 5)) (js_lit (2 / 5)) (js_lit (3 / 10)) (js_lit (1 / 10)))
     < js_lit (1 / 1000000000)"
    by (simp add: grashof_SL_def grashof_PQ_def grashof_S_def grashof_L_def Math_min_def
        Math_max_def min_step_def max_step_def minus_jsnum_def tenths)
  from 1 2 strict_test_precedes_tolerance[of "js_lit (1 / 5)" "js_lit (2 / 5)" "js_lit (3 / 10)" "js_lit (1 / 10)"]
  show ?thesis by blast
qed

text \<open>
  Claim C6. The classification is not invariant under every permutation of the lengths:
  the additions of \<open>a + b + c + d\<close> round, and their order decides the last bit of \<open>PQ\<close>.
  For the lengths \<open>0.1, 0.2, 0.3, 0.4\<close> the order \<open>0.1, 0.2, 0.3, 0.4\<close> gives
  \<open>PQ = S + L = 0.5\<close> and \<open>Special Grashof\<close>, the order \<open>0.2, 0.4, 0.3, 0.1\<close> gives
  \<open>PQ = 0.5 + 2\<^sup>-\<^sup>5\<^sup>2\<close> and \<open>Grashof\<close>.
\<close>

theorem grashof_order_dependence:
  "grashofCondition (js_lit (1 / 10)) (js_lit (1 / 5)) (js_lit (3 / 10)) (js_lit (2 / 5)) = ''Special Grashof'' \<and>
   grashofCondition (js_lit (1 / 5)) (js_lit (2 / 5)) (js_lit (3 / 10)) (js_lit (1 / 10)) = ''Grashof''"
  by (simp add: grashofCondition_def Math_min_def Math_max_def min_step_def max_step_def
      minus_jsnum_def tenths)

section \<open>Properties of the request handler\<close>

lemma eq_null_simps [simp]:
  "eq_null None" "eq_null (Some JNull)" "\<not> eq_null (Some (JNum x))"
  by (simp_all add: eq_null_def)

text \<open>
  Claim C10. The handler answers 400 with the missing-field message exactly when one of
  the five fields is absent or \<open>null\<close>; a body of five Numbers, zero included, passes and
  the Numbers reach the solver and the classifier as they are. The witness is a body with
  \<open>b = 0\<close>, which is answered 200, and a body with \<open>b = null\<close>, which is answered 400.
\<close>

theorem post_compute_validation:
  "(post_compute solver req_body = Status400 ''Missing one of the required fields: a, b, c, d, theta2'')
     = (\<exists>k \<in> {''a'', ''b'', ''c'', ''d'', ''theta2''}. req_body k = None \<or> req_body k = Some JNull) \<and>
   post_compute solver (number_body a b c d theta2)
     = Status200 (grashofCondition a b c d) (solver a b c d theta2)"
  by (auto simp add: post_compute_def number_body_def eq_null_def Let_def)

theorem post_compute_validation_witness:
  "post_compute computeFourBar (number_body (Fin 1) (Fin 0) (Fin 1) (Fin 1) (Fin 0))
     = Status200 (grashofCondition (Fin 1) (Fin 0) (Fin 1) (Fin 1))
         (computeFourBar (Fin 1) (Fin 0) (Fin 1) (Fin 1) (Fin 0)) \<and>
   post_compute computeFourBar [''a'' \<mapsto> JNum (Fin 1), ''b'' \<mapsto> JNull]
     = Status400 ''Missing one of the required fields: a, b, c, d, theta2''"
  using post_compute_validation[of computeFourBar "[''a'' \<mapsto> JNum (Fin 1), ''b'' \<mapsto> JNull]"
      "Fin 1" "Fin 0" "Fin 1" "Fin 1" "Fin 0"]
  by simp

section \<open>Properties of the solver\<close>

lemma le_not_less: "Fin 0 \<le> x \<Longrightarrow> \<not> x < Fin 0"
  by (cases x) simp_all

lemma spec_theta2_eq: "spec_theta2 t = degToRad t"
  by (simp add: spec_theta2_def degToRad_def)

lemma spec_degrees_eq: "spec_degrees r = radToDeg r"
  by (simp add: spec_degrees_def radToDeg_def)

lemmas spec_defs = spec_K1_def spec_K2_def spec_K3_def spec_A_def spec_B_def spec_C_def
  spec_disc4_def spec_theta4_open_def spec_theta4_crossed_def spec_theta2_eq spec_degrees_eq

text \<open>
  Whenever the discriminant \<open>B\<^sup>2 - 4AC\<close> of the specification's closed form is not
  negative, both versions of the solver return as \<open>theta41\<close> and \<open>theta42\<close> the
  specification's \<open>2 atan2(2A, -B - root)\<close> and \<open>2 atan2(2A, -B + root)\<close>, converted to
  degrees and passed through \<open>normalizeAngle\<close>. No assumption on the lengths is needed.
\<close>

lemma computeFourBar_closed_form:
  assumes "Fin 0 \<le> spec_disc4 a b c d t"
  shows "theta41 (computeFourBar a b c d t)
           = Some (normalizeAngle (spec_degrees (spec_theta4_open a b c d t))) \<and>
         theta42 (computeFourBar a b c d t)
           = Some (normalizeAngle (spec_degrees (spec_theta4_crossed a b c d t))) \<and>
         theta41 (computeFourBar_server sub_obj add_obj a b c d t)
           = Some (normalizeAngle (spec_degrees (spec_theta4_open a b c d t))) \<and>
         theta42 (computeFourBar_server sub_obj add_obj a b c d t)
           = Some (normalizeAngle (spec_degrees (spec_theta4_crossed a b c d t)))"
  using le_not_less[OF assms]
  by (simp add: computeFourBar_def computeFourBar_server_def spec_defs Let_def split_def)

lemma Math_PI_neq0 [simp]: "884279719003555 / 2 ^ 48 \<noteq> (0::real)"
  by simp

lemma square_disc: "spec_disc4 (Fin 1) (Fin 1) (Fin 1) (Fin 1) (Fin 0) = Fin 0"
  by (simp add: spec_defs sq_def minus_jsnum_def)

text \<open>The square linkage at \<open>theta2 = 0\<close>: the discriminant is 0 and both angles are 0.\<close>

lemma square_example:
  "Fin 0 \<le> spec_disc4 (Fin 1) (Fin 1) (Fin 1) (Fin 1) (Fin 0) \<and>
   theta41 (computeFourBar (Fin 1) (Fin 1) (Fin 1) (Fin 1) (Fin 0)) = Some (Fin 0) \<and>
   theta42 (computeFourBar (Fin 1) (Fin 1) (Fin 1) (Fin 1) (Fin 0)) = Some (Fin 0)"
proof -
  have h: "Fin 0 \<le> spec_disc4 (Fin 1) (Fin 1) (Fin 1) (Fin 1) (Fin 0)"
    by (simp add: square_disc)
  have "normalizeAngle (spec_degrees (spec_theta4_open (Fin 1) (Fin 1) (Fin 1) (Fin 1) (Fin 0))) = Fin 0"
    "normalizeAngle (spec_degrees (spec_theta4_crossed (Fin 1) (Fin 1) (Fin 1) (Fin 1) (Fin 0))) = Fin 0"
    by (simp_all add: spec_defs sq_def minus_jsnum_def radToDeg_def Math_PI_def normalizeAngle_def trunc_def)
  with h computeFourBar_closed_form[OF h] show ?thesis by simp
qed

text \<open>
  The range of \<open>normalizeAngle\<close> on finite Numbers is the closed interval from 0 to 360:
  a remainder from \<open>-2\<^sup>-\<^sup>4\<^sup>5\<close> up to 0 is added to 360 and the sum rounds to 360.
\<close>

lemma normalizeAngle_range:
  "\<exists>y. normalizeAngle (Fin r) = Fin y \<and> 0 \<le> y \<and> y \<le> 360"
proof -
  define x where "x = r / 360"
  define a where "a = r - 360 * of_int (trunc x)"
  have rem: "js_rem (Fin r) (Fin 360) = Fin a" by (simp add: a_def x_def)
  have rx: "r = 360 * x" by (simp add: x_def)
  have ab: "- 360 < a \<and> a < 360 \<and> (0 \<le> r \<longrightarrow> 0 \<le> a)"
  proof (cases "0 \<le> x")
    case True
    then have t: "trunc x = \<lfloor>x\<rfloor>" by (simp add: trunc_def)
    have "of_int \<lfloor>x\<rfloor> \<le> x" "x < of_int \<lfloor>x\<rfloor> + 1" by linarith+
    then have "0 \<le> a" "a < 360" unfolding a_def rx t by linarith+
    then show ?thesis by simp
  next
    case False
    then have t: "trunc x = \<lceil>x\<rceil>" by (simp add: trunc_def)
    have "x \<le> of_int \<lceil>x\<rceil>" "of_int \<lceil>x\<rceil> - 1 < x" by linarith+
    then have "- 360 < a" "a \<le> 0" unfolding a_def rx t by linarith+
    then show ?thesis using False by (simp add: rx)
  qed
  show ?thesis
  proof (cases "a < 0")
    case True
    have "round64 360 = Fin 360" by simp
    from round64_between[of 0 "a + 360" 360, OF _ _ round64_0 this] ab True
    obtain y where "round64 (a + 360) = Fin y" "0 \<le> y" "y \<le> 360" by auto
    with True rem show ?thesis by (simp add: normalizeAngle_def)
  next
    case False
    with ab rem show ?thesis by (simp add: normalizeAngle_def)
  qed
qed

lemma Math_cos_0 [simp]: "Math_cos (Fin 0) = Fin 1"
  by simp

lemma Math_sin_0 [simp]: "Math_sin (Fin 0) = Fin 0"
  by simp

text \<open>
  The lengths \<open>a = b = 2\<^sup>7\<^sup>0\<close>, \<open>c = d = 12.9\<close> at \<open>theta2 = 0\<close>: \<open>K3\<close> is one unit in the
  last place below \<open>K2\<close>, so \<open>A = -2\<^sup>-\<^sup>1\<^sup>1\<^sup>9\<close>, \<open>C = 2\<close>, the discriminant is
  \<open>2\<^sup>-\<^sup>1\<^sup>1\<^sup>6\<close> with root \<open>2\<^sup>-\<^sup>5\<^sup>8\<close>, and the crossed solution is \<open>2 atan2(-2\<^sup>-\<^sup>1\<^sup>1\<^sup>8, 2\<^sup>-\<^sup>5\<^sup>8)\<close>,
  between \<open>-2\<^sup>-\<^sup>5\<^sup>9\<close> and \<open>-2\<^sup>-\<^sup>6\<^sup>0\<close> radians. In degrees it lies between \<open>-120 \<cdot> 2\<^sup>-\<^sup>6\<^sup>0\<close> and
  \<open>-45 \<cdot> 2\<^sup>-\<^sup>6\<^sup>0\<close>, and \<open>normalizeAngle\<close> returns 360.
\<close>

lemma rounding_example:
  "spec_disc4 (Fin (2 ^ 70)) (Fin (2 ^ 70)) (js_lit (129 / 10)) (js_lit (129 / 10)) (Fin 0) = Fin (1 / 2 ^ 116)"
  "normalizeAngle (spec_degrees (spec_theta4_crossed (Fin (2 ^ 70)) (Fin (2 ^ 70)) (js_lit (129 / 10)) (js_lit (129 / 10)) (Fin 0))) = Fin 360"
proof -
  define cv :: real where "cv = 7262054399134925 / 2 ^ 49"
  define k2 :: real where "k2 = 7262054399134925 / 2 ^ 119"
  define qv :: real where "qv = 5855031359302533 / 2 ^ 45"
  define k3 :: real where "k3 = 1815513599783731 / 2 ^ 117"
  define av :: real where "av = - (1 / 2 ^ 119)"
  define sv :: real where "sv = 1 / 2 ^ 116"
  define rv :: real where "rv = 1 / 2 ^ 58"
  define tv :: real where "tv = - (1 / 2 ^ 60)"
  define pv :: real where "pv = 884279719003555 / 2 ^ 48"
  have c: "js_lit (129 / 10) = Fin cv"
    unfolding js_lit_def cv_def
    by (subst round64_eq[where e = 3]) (simp_all add: two_to_def round_half_even_def)
  have K1: "Fin cv / Fin cv = Fin 1" by (simp add: cv_def)
  have K2: "Fin cv / Fin (2 ^ 70) = Fin k2"
    apply (simp add: cv_def k2_def)
    apply (rule round64_exact[where m = 7262054399134925 and j = "- 119"])
    apply (simp_all add: two_to_def)
    done
  have sqa: "sq (Fin (2 ^ 70)) = Fin (2 ^ 140)"
    apply (simp add: sq_def)
    apply (rule round64_exact[where m = 1 and j = 140])
    apply (simp_all add: two_to_def)
    done
  have d0: "Fin (2 ^ 140) - Fin (2 ^ 140) = Fin 0" by (simp add: minus_jsnum_def)
  have sqc: "sq (Fin cv) = Fin qv"
    apply (simp add: sq_def cv_def qv_def)
    apply (subst round64_eq[where e = 7])
    apply (simp_all add: two_to_def round_half_even_def)
    done
  have s1: "Fin 0 + Fin qv = Fin qv"
    apply (simp add: qv_def)
    apply (rule round64_exact[where m = 5855031359302533 and j = "- 45"])
    apply (simp_all add: two_to_def)
    done
  have s2: "Fin qv + Fin qv = Fin (2 * qv)"
    apply (simp add: qv_def)
    apply (rule round64_exact[where m = 5855031359302533 and j = "- 44"])
    apply (simp_all add: two_to_def)
    done
  have m1: "Fin 2 * Fin (2 ^ 70) = Fin (2 ^ 71)"
    apply simp
    apply (rule round64_exact[where m = 1 and j = 71])
    apply (simp_all add: two_to_def)
    done
  have m2: "Fin (2 ^ 71) * Fin cv = Fin (2 ^ 71 * cv)"
    apply (simp add: cv_def)
    apply (rule round64_exact[where m = 7262054399134925 and j = 22])
    apply (simp_all add: two_to_def)
    done
  have K3: "Fin (2 * qv) / Fin (2 ^ 71 * cv) = Fin k3"
    apply (simp add: cv_def qv_def k3_def)
    apply (subst round64_eq[where e = "- 67"])
    apply (simp_all add: two_to_def round_half_even_def)
    done
  have a1: "Fin 1 - Fin 1 = Fin 0" by (simp add: minus_jsnum_def)
  have a2: "Fin k2 * Fin 1 = Fin k2"
    apply (simp add: k2_def)
    apply (rule round64_exact[where m = 7262054399134925 and j = "- 119"])
    apply (simp_all add: two_to_def)
    done
  have a3: "Fin 0 - Fin k2 = Fin (- k2)"
    apply (simp add: k2_def minus_jsnum_def)
    apply (rule round64_exact[where m = "- 7262054399134925" and j = "- 119"])
    apply (simp_all add: two_to_def)
    done
  have a4: "Fin (- k2) + Fin k3 = Fin av"
    apply (simp add: k2_def k3_def av_def)
    apply (rule round64_exact[where m = "- 1" and j = "- 119"])
    apply (simp_all add: two_to_def)
    done
  have b1: "Fin (- 2) * Fin 0 = Fin 0" by simp
  have c1: "Fin k2 - Fin 1 = Fin (- 1)"
    apply (simp add: k2_def minus_jsnum_def)
    apply (subst round64_eq[where e = "- 1"])
    apply (simp_all add: two_to_def round_half_even_def)
    done
  have c2: "Fin (- 1) * Fin 1 = Fin (- 1)" by simp
  have c3: "Fin 1 - Fin (- 1) = Fin 2" by (simp add: minus_jsnum_def)
  have c4: "Fin 2 + Fin k3 = Fin 2"
    apply (simp add: k3_def)
    apply (subst round64_eq[where e = 1])
    apply (simp_all add: two_to_def round_half_even_def)
    done
  have e1: "Fin 0 * Fin 0 = Fin 0" by simp
  have e2: "Fin 4 * Fin av = Fin (4 * av)"
    apply (simp add: av_def)
    apply (rule round64_exact[where m = "- 1" and j = "- 117"])
    apply (simp_all add: two_to_def)
    done
  have e3: "Fin (4 * av) * Fin 2 = Fin (8 * av)"
    apply (simp add: av_def)
    apply (rule round64_exact[where m = "- 1" and j = "- 116"])
    apply (simp_all add: two_to_def)
    done
  have e4: "Fin 0 - Fin (8 * av) = Fin sv"
    apply (simp add: av_def sv_def minus_jsnum_def)
    apply (rule round64_exact[where m = 1 and j = "- 116"])
    apply (simp_all add: two_to_def)
    done
  have e5: "(Fin sv < Fin 0) = False" by (simp add: sv_def)
  have "sqrt sv = rv"
    unfolding sv_def rv_def by (simp add: real_sqrt_divide real_sqrt_unique)
  then have root: "Math_sqrt (Fin sv) = Fin rv"
    apply (simp add: sv_def)
    apply (simp add: rv_def)
    apply (rule round64_exact[where m = 1 and j = "- 58"])
    apply (simp_all add: two_to_def)
    done
  have n0: "- Fin 0 = Fin 0" by simp
  have p1: "Fin 0 + Fin rv = Fin rv"
    apply (simp add: rv_def)
    apply (rule round64_exact[where m = 1 and j = "- 58"])
    apply (simp_all add: two_to_def)
    done
  have y1: "Fin 2 * Fin av = Fin (2 * av)"
    apply (simp add: av_def)
    apply (rule round64_exact[where m = "- 1" and j = "- 118"])
    apply (simp_all add: two_to_def)
    done
  have at: "Math_atan2 (Fin (2 * av)) (Fin rv) = round64 (arctan tv)"
    by (simp add: av_def rv_def tv_def)
  have tvb: "- 1 \<le> tv" "tv \<le> 0" by (simp_all add: tv_def)
  have rt: "round64 tv = Fin tv" "round64 (tv / 2) = Fin (tv / 2)"
    unfolding tv_def
    by (rule round64_exact[where m = "- 1" and j = "- 60"], simp_all add: two_to_def)
      (rule round64_exact[where m = "- 1" and j = "- 61"], simp_all add: two_to_def)
  from round64_between[OF arctan_neg_bounds[OF tvb] rt]
  obtain r1 where r1: "round64 (arctan tv) = Fin r1" "tv \<le> r1" "r1 \<le> tv / 2" by blast
  have rt2: "round64 (2 * tv) = Fin (2 * tv)"
    unfolding tv_def by (rule round64_exact[where m = "- 1" and j = "- 59"]) (simp_all add: two_to_def)
  have "2 * tv \<le> 2 * r1" "2 * r1 \<le> tv" using r1 by simp_all
  from round64_between[OF this rt2 rt(1)]
  obtain r2 where r2: "Fin 2 * Fin r1 = Fin r2" "2 * tv \<le> r2" "r2 \<le> tv" by auto
  have rt3: "round64 (360 * tv) = Fin (360 * tv)" "round64 (180 * tv) = Fin (180 * tv)"
    unfolding tv_def
    by (rule round64_exact[where m = "- 45" and j = "- 57"], simp_all add: two_to_def)
      (rule round64_exact[where m = "- 45" and j = "- 58"], simp_all add: two_to_def)
  have "360 * tv \<le> r2 * 180" "r2 * 180 \<le> 180 * tv" using r2 by simp_all
  from round64_between[OF this rt3]
  obtain r3 where r3: "Fin r2 * Fin 180 = Fin r3" "360 * tv \<le> r3" "r3 \<le> 180 * tv" by auto
  have pvb: "3 < pv" "pv < 4" by (simp_all add: pv_def)
  have rt4: "round64 (120 * tv) = Fin (120 * tv)" "round64 (45 * tv) = Fin (45 * tv)"
    unfolding tv_def
    by (rule round64_exact[where m = "- 15" and j = "- 57"], simp_all add: two_to_def)
      (rule round64_exact[where m = "- 45" and j = "- 60"], simp_all add: two_to_def)
  have r3neg: "r3 \<le> 0" using r3 tvb by simp
  have "120 * tv \<le> r3 / pv"
  proof -
    have "120 * tv = 360 * tv / 3" by simp
    also have "\<dots> \<le> r3 / 3" using r3 by simp
    also have "\<dots> \<le> r3 / pv" using r3neg pvb by (intro divide_left_mono_neg) simp_all
    finally show ?thesis .
  qed
  moreover have "r3 / pv \<le> 45 * tv"
  proof -
    have "r3 / pv \<le> r3 / 4" using r3neg pvb by (intro divide_left_mono_neg) simp_all
    also have "\<dots> \<le> 180 * tv / 4" using r3 by simp
    also have "\<dots> = 45 * tv" by simp
    finally show ?thesis .
  qed
  ultimately obtain r4 where r4: "round64 (r3 / pv) = Fin r4" "120 * tv \<le> r4" "r4 \<le> 45 * tv"
    using round64_between[OF _ _ rt4] by blast
  have PI: "Math_PI = Fin pv" by (simp add: Math_PI_def pv_def)
  have "Fin r3 / Fin pv = Fin r4" using r4(1) pvb by simp
  then have dg: "radToDeg (Fin r2) = Fin r4" unfolding radToDeg_def PI r3(1) .
  have "- (1 / 2 ^ 45) \<le> r4" "r4 < 0" using r4 by (simp_all add: tv_def)
  then have nz: "normalizeAngle (Fin r4) = Fin 360" by (rule normalizeAngle_360)
  note steps = c degToRad_0 Math_cos_0 Math_sin_0 K1 K2 sqa d0 sqc s1 s2 m1 m2 K3 a1 a2 a3 a4 b1
    c1 c2 c3 c4 e1 e2 e3 e4
  show "spec_disc4 (Fin (2 ^ 70)) (Fin (2 ^ 70)) (js_lit (129 / 10)) (js_lit (129 / 10)) (Fin 0) = Fin (1 / 2 ^ 116)"
    unfolding sv_def [symmetric] by (simp only: spec_defs steps)
  show "normalizeAngle (spec_degrees (spec_theta4_crossed (Fin (2 ^ 70)) (Fin (2 ^ 70)) (js_lit (129 / 10)) (js_lit (129 / 10)) (Fin 0))) = Fin 360"
    by (simp only: spec_defs steps root n0 p1 y1 at r1(1) r2(1) dg nz)
qed


text \<open>
  Claim C1. The closed form is what both versions of the solver compute, but its
  normalization does not always end in \<open>[0, 360)\<close>: for the positive lengths
  \<open>a = b = 2\<^sup>7\<^sup>0\<close>, \<open>c = d = 12.9\<close> and \<open>theta2 = 0\<close> the discriminant is \<open>2\<^sup>-\<^sup>1\<^sup>1\<^sup>6\<close>, not
  negative, \<open>theta42\<close> is the specification's crossed solution in degrees passed through
  \<open>normalizeAngle\<close>, and that value is 360.
\<close>

theorem closed_form_reaches_360:
  "Fin 0 \<le> spec_disc4 (Fin (2 ^ 70)) (Fin (2 ^ 70)) (js_lit (129 / 10)) (js_lit (129 / 10)) (Fin 0) \<and>
   theta42 (computeFourBar (Fin (2 ^ 70)) (Fin (2 ^ 70)) (js_lit (129 / 10)) (js_lit (129 / 10)) (Fin 0))
     = Some (normalizeAngle (spec_degrees (spec_theta4_crossed (Fin (2 ^ 70)) (Fin (2 ^ 70)) (js_lit (129 / 10)) (js_lit (129 / 10)) (Fin 0)))) \<and>
   theta42 (computeFourBar_server sub_obj add_obj (Fin (2 ^ 70)) (Fin (2 ^ 70)) (js_lit (129 / 10)) (js_lit (129 / 10)) (Fin 0))
     = Some (normalizeAngle (spec_degrees (spec_theta4_crossed (Fin (2 ^ 70)) (Fin (2 ^ 70)) (js_lit (129 / 10)) (js_lit (129 / 10)) (Fin 0)))) \<and>
   normalizeAngle (spec_degrees (spec_theta4_crossed (Fin (2 ^ 70)) (Fin (2 ^ 70)) (js_lit (129 / 10)) (js_lit (129 / 10)) (Fin 0))) = Fin 360"
proof -
  have h: "Fin 0 \<le> spec_disc4 (Fin (2 ^ 70)) (Fin (2 ^ 70)) (js_lit (129 / 10)) (js_lit (129 / 10)) (Fin 0)"
    unfolding rounding_example(1) by simp
  from h computeFourBar_closed_form[OF h] rounding_example(2) show ?thesis by simp
qed

text \<open>
  On a negative discriminant the solver of \<open>src/unnamed/part_001\<close> leaves both angles
  \<open>null\<close>; the solver of \<open>src/server.js\<close> never returns \<open>null\<close>.
\<close>

lemma computeFourBar_negative_discriminant:
  assumes "spec_disc4 a b c d t < Fin 0"
  shows "theta41 (computeFourBar a b c d t) = None \<and> theta42 (computeFourBar a b c d t) = None"
  using assms by (simp add: computeFourBar_def spec_defs Let_def split_def)

lemma computeFourBar_server_never_null:
  "theta41 (computeFourBar_server sub_obj add_obj a b c d t) \<noteq> None \<and>
   theta42 (computeFourBar_server sub_obj add_obj a b c d t) \<noteq> None \<and>
   theta31 (computeFourBar_server sub_obj add_obj a b c d t) \<noteq> None \<and>
   theta32 (computeFourBar_server sub_obj add_obj a b c d t) \<noteq> None"
  by (simp add: computeFourBar_server_def Let_def)

text \<open>
  Claim C2. For \<open>a = 2\<close>, \<open>b = c = d = 1\<close>, \<open>theta2 = 0\<close> the discriminant is \<open>-9/4\<close>. The
  solver of \<open>src/unnamed/part_001\<close> returns \<open>null\<close> for both angles, as the claim says;
  the solver of \<open>src/server.js\<close>, which has no test of the discriminant, returns two
  Numbers, whatever Numbers the Complex object of mathjs converts to.
\<close>

theorem server_js_negative_discriminant:
  "spec_disc4 (Fin 2) (Fin 1) (Fin 1) (Fin 1) (Fin 0) = Fin (- (9 / 4)) \<and>
   theta41 (computeFourBar_server sub_obj add_obj (Fin 2) (Fin 1) (Fin 1) (Fin 1) (Fin 0)) \<noteq> None \<and>
   theta42 (computeFourBar_server sub_obj add_obj (Fin 2) (Fin 1) (Fin 1) (Fin 1) (Fin 0)) \<noteq> None \<and>
   theta41 (computeFourBar (Fin 2) (Fin 1) (Fin 1) (Fin 1) (Fin 0)) = None \<and>
   theta42 (computeFourBar (Fin 2) (Fin 1) (Fin 1) (Fin 1) (Fin 0)) = None"
proof -
  have d: "spec_disc4 (Fin 2) (Fin 1) (Fin 1) (Fin 1) (Fin 0) = Fin (- (9 / 4))"
    by (simp add: spec_defs sq_def minus_jsnum_def)
  then have "spec_disc4 (Fin 2) (Fin 1) (Fin 1) (Fin 1) (Fin 0) < Fin 0" by simp
  from computeFourBar_negative_discriminant[OF this] d computeFourBar_server_never_null
  show ?thesis by simp
qed



















lemma huge_val:
  "huge = Fin 99999999999999996973312221251036165947450327545502362648241750950346848435554075534196338404706251868027512415973882408182135734368278484639385041047239877871023591066789981811181813306167128854888448"
  unfolding huge_def js_lit_def
  by (subst round64_eq[where e = 664]) (simp_all add: two_to_def round_half_even_def)

lemma huge_sq: "huge * huge = PInf"
  unfolding huge_val times_jsnum.simps
  by (subst round64_overflow) (simp_all add: two_to_def)

text \<open>
  Claim C5. Outputs of the solver outside \<open>[0, 360)\<close>. First, \<open>normalizeAngle\<close> returns
  360 itself on a negative remainder from \<open>-2\<^sup>-\<^sup>4\<^sup>5\<close> on, half a unit in the last place of
  360, because the sum \<open>a + 360\<close> rounds to 360; the solver reaches such an angle for the
  positive lengths \<open>a = b = 2\<^sup>7\<^sup>0\<close>, \<open>c = d = 12.9\<close> at \<open>theta2 = 0\<close>, where \<open>theta42\<close> is 360.
  Second, for the positive lengths \<open>a = b = 1e200\<close>, \<open>c = d = 1\<close> the squares overflow,
  \<open>K3\<close> is NaN and \<open>theta41\<close> is the Number NaN, not \<open>null\<close>.
\<close>

theorem normalizeAngle_out_of_range:
  "normalizeAngle (Fin (- (1 / 2 ^ 45))) = Fin 360 \<and>
   theta42 (computeFourBar (Fin (2 ^ 70)) (Fin (2 ^ 70)) (js_lit (129 / 10)) (js_lit (129 / 10)) (Fin 0)) = Some (Fin 360) \<and>
   theta41 (computeFourBar huge huge (Fin 1) (Fin 1) (Fin 0)) = Some NaN"
proof -
  have "normalizeAngle (Fin (- (1 / 2 ^ 45))) = Fin 360"
    by (rule normalizeAngle_360) simp_all
  moreover have "Fin 0 \<le> spec_disc4 (Fin (2 ^ 70)) (Fin (2 ^ 70)) (js_lit (129 / 10)) (js_lit (129 / 10)) (Fin 0)"
    unfolding rounding_example(1) by simp
  then have "theta42 (computeFourBar (Fin (2 ^ 70)) (Fin (2 ^ 70)) (js_lit (129 / 10)) (js_lit (129 / 10)) (Fin 0)) = Some (Fin 360)"
    using computeFourBar_closed_form[of "Fin (2 ^ 70)" "Fin (2 ^ 70)" "js_lit (129 / 10)" "js_lit (129 / 10)" "Fin 0"] rounding_example(2) by simp
  moreover have "theta41 (computeFourBar huge huge (Fin 1) (Fin 1) (Fin 0)) = Some NaN"
    by (simp add: computeFourBar_def sq_def huge_sq minus_jsnum_def Let_def)
  ultimately show ?thesis by blast
qed

end
